theory Spec2Isabelle
  imports Complex_Main "HOL-Library.Char_ord" "HOL-Library.List_Lexorder"
begin

section \<open>Python values used by detailed\_await\_analysis.py\<close>

subsection \<open>Floats\<close>

text \<open>
  A Python float is a finite double, an infinity or NaN. Only comparisons and \<open>max\<close> are
  applied to floats by the program, so a finite double is represented by the real number it
  denotes. Every comparison with NaN is false, as in IEEE 754.
\<close>

datatype pyfloat = NaN | NInf | Fin real | PInf

fun flt :: "pyfloat \<Rightarrow> pyfloat \<Rightarrow> bool" where
  "flt NaN _ = False"
| "flt _ NaN = False"
| "flt PInf _ = False"
| "flt _ NInf = False"
| "flt NInf _ = True"
| "flt _ PInf = True"
| "flt (Fin a) (Fin b) = (a < b)"

fun feq :: "pyfloat \<Rightarrow> pyfloat \<Rightarrow> bool" where
  "feq NaN _ = False"
| "feq _ NaN = False"
| "feq a b = (a = b)"

definition fgt :: "pyfloat \<Rightarrow> pyfloat \<Rightarrow> bool" where
  "fgt a b = flt b a"

definition fle :: "pyfloat \<Rightarrow> pyfloat \<Rightarrow> bool" where
  "fle a b = (flt a b \<or> feq a b)"

definition fge :: "pyfloat \<Rightarrow> pyfloat \<Rightarrow> bool" where
  "fge a b = fle b a"

text \<open>
  The builtin \<open>max(a, b)\<close> keeps its first argument unless the second compares greater:
  \<open>max(nan, 200.0)\<close> is \<open>nan\<close> and \<open>max(200.0, nan)\<close> is \<open>200.0\<close>.
\<close>

definition py_max :: "pyfloat \<Rightarrow> pyfloat \<Rightarrow> pyfloat" where
  "py_max a b = (if fgt b a then b else a)"

subsection \<open>Strings\<close>

text \<open>
  A Python string is modelled as a \<^typ>\<open>string\<close>: a list of characters with code points
  below 256. On these, \<open>str.isspace\<close> holds of the code points 9 to 13, 28 to 32, 133 and 160,
  \<open>str.isdigit\<close> of the ASCII digits and the superscripts 178, 179 and 185, and the
  class \<open>\d\<close> of a regular expression only of the ASCII digits.
\<close>

definition is_space :: "char \<Rightarrow> bool" where
  "is_space c = (c \<in> set [CHR 0x09, CHR 0x0A, CHR 0x0B, CHR 0x0C, CHR 0x0D,
     CHR 0x1C, CHR 0x1D, CHR 0x1E, CHR 0x1F, CHR 0x20, CHR 0x85, CHR 0xA0])"

definition is_decimal :: "char \<Rightarrow> bool" where
  "is_decimal c = (c \<in> set ''0123456789'')"

definition is_digit_char :: "char \<Rightarrow> bool" where
  "is_digit_char c = (is_decimal c \<or> c \<in> set [CHR 0xB2, CHR 0xB3, CHR 0xB9])"

definition isdigit :: "string \<Rightarrow> bool" where
  "isdigit s = (s \<noteq> [] \<and> list_all is_digit_char s)"

definition strip :: "string \<Rightarrow> string" where
  "strip s = rev (dropWhile is_space (rev (dropWhile is_space s)))"

definition startswith :: "string \<Rightarrow> string \<Rightarrow> bool" where
  "startswith s p = (take (length p) s = p)"

text \<open>\<open>s.split(c)\<close> for a one-character separator: never empty, one more piece than
  separators.\<close>

definition split_sep :: "char \<Rightarrow> string \<Rightarrow> string list" where
  "split_sep c s =
     foldr (\<lambda>x acc. if x = c then [] # acc else (x # hd acc) # tl acc) s [[]]"

fun join_sep :: "char \<Rightarrow> string list \<Rightarrow> string" where
  "join_sep c [] = []"
| "join_sep c [w] = w"
| "join_sep c (w # ws) = w @ c # join_sep c ws"

text \<open>\<open>s.split()\<close>: the maximal runs of non-whitespace characters, in order.\<close>

fun split_ws_from :: "string \<Rightarrow> string \<Rightarrow> string list" where
  "split_ws_from cur [] = (if cur = [] then [] else [cur])"
| "split_ws_from cur (x # xs) =
     (if is_space x then (if cur = [] then split_ws_from [] xs else cur # split_ws_from [] xs)
      else split_ws_from (cur @ [x]) xs)"

definition split_ws :: "string \<Rightarrow> string list" where
  "split_ws s = split_ws_from [] s"

text \<open>\<open>os.path.basename\<close>: what follows the last slash.\<close>

definition basename :: "string \<Rightarrow> string" where
  "basename p = rev (takeWhile (\<lambda>c. c \<noteq> CHR ''/'') (rev p))"

subsection \<open>The regular expression of the timestamp line\<close>

text \<open>
  \<open>re.match\<close> anchors the pattern at the start of the string only. The pattern
  \<^verbatim>\<open>\d{2}/\d{2}/\d{4} \d{2}:\d{2}:\d{2} [APM]{2}\<close> is a sequence of character classes,
  each repeated a fixed number of times, so matching needs no backtracking.
\<close>

datatype cls = Digit | Lit char | OneOf string

fun in_cls :: "cls \<Rightarrow> char \<Rightarrow> bool" where
  "in_cls Digit c = is_decimal c"
| "in_cls (Lit a) c = (c = a)"
| "in_cls (OneOf s) c = (c \<in> set s)"

fun match_rep :: "cls \<Rightarrow> nat \<Rightarrow> string \<Rightarrow> string option" where
  "match_rep k 0 s = Some s"
| "match_rep k (Suc n) [] = None"
| "match_rep k (Suc n) (c # s) = (if in_cls k c then match_rep k n s else None)"

fun re_match :: "(cls \<times> nat) list \<Rightarrow> string \<Rightarrow> bool" where
  "re_match [] s = True"
| "re_match ((k, n) # ps) s =
     (case match_rep k n s of None \<Rightarrow> False | Some rest \<Rightarrow> re_match ps rest)"

definition timestamp_re :: "(cls \<times> nat) list" where
  "timestamp_re =
     [(Digit, 2), (Lit CHR ''/'', 1), (Digit, 2), (Lit CHR ''/'', 1), (Digit, 4),
      (Lit CHR '' '', 1), (Digit, 2), (Lit CHR '':'', 1), (Digit, 2), (Lit CHR '':'', 1),
      (Digit, 2), (Lit CHR '' '', 1), (OneOf ''APM'', 2)]"

section \<open>check\_high\_await\_times\<close>

text \<open>The dictionary appended to \<open>high_await_lines\<close>.\<close>

record entry =
  filename :: string
  full_filepath :: string
  line_number :: nat
  original_line :: string
  timestamp :: string
  device :: string
  r_await :: pyfloat
  w_await :: pyfloat
  clean_line :: string
  all_parts :: "string list"

datatype error = OSError | IndexError

text \<open>Lines 22 to 27: the line without an injected \<open><digits>|\<close> prefix, stripped.\<close>

definition cleaned :: "string \<Rightarrow> string" where
  "cleaned line =
     strip (if CHR ''|'' \<in> set line \<and> isdigit (hd (split_sep CHR ''|'' line))
            then join_sep CHR ''|'' (tl (split_sep CHR ''|'' line))
            else line)"

text \<open>
  What one iteration of the loop does with its line: it sets the carried timestamp
  (line 31), appends an entry (line 58), or does neither. The builtin \<open>float\<close> is the
  parameter \<open>pf\<close>; \<open>None\<close> stands for its \<open>ValueError\<close>, which line 60 catches.
\<close>

datatype outcome = Stamp string | Row entry | Skip

definition line_step ::
  "(string \<Rightarrow> pyfloat option) \<Rightarrow> string \<Rightarrow> pyfloat \<Rightarrow> nat \<Rightarrow> string \<Rightarrow> string \<Rightarrow> outcome" where
  "line_step pf filepath threshold i line current_timestamp =
     (let clean = cleaned line in
      if re_match timestamp_re clean then Stamp clean
      else if clean \<noteq> [] \<and> \<not> startswith clean ''Device'' \<and> \<not> startswith clean ''avg-cpu''
      then
        (let parts = split_ws clean in
         if 16 \<le> length parts \<and> hd parts \<notin> set [''Linux'', '''']
         then
           (case pf (parts ! 9) of
              None \<Rightarrow> Skip
            | Some r \<Rightarrow>
               (case pf (parts ! 10) of
                  None \<Rightarrow> Skip
                | Some w \<Rightarrow>
                   if fgt r threshold \<or> fgt w threshold
                   then Row \<lparr> filename = basename filepath,
                              full_filepath = filepath,
                              line_number = i + 1,
                              original_line = strip line,
                              timestamp = current_timestamp,
                              device = hd parts,
                              r_await = r,
                              w_await = w,
                              clean_line = clean,
                              all_parts = parts \<rparr>
                   else Skip))
         else Skip)
      else Skip)"

text \<open>The loop of line 17, with the index, the carried timestamp and the list built so far.\<close>

fun scan ::
  "(string \<Rightarrow> pyfloat option) \<Rightarrow> string \<Rightarrow> pyfloat \<Rightarrow> nat \<Rightarrow> string \<Rightarrow> entry list
     \<Rightarrow> string list \<Rightarrow> entry list" where
  "scan pf filepath threshold i ts acc [] = acc"
| "scan pf filepath threshold i ts acc (line # rest) =
     (case line_step pf filepath threshold i line ts of
        Stamp s \<Rightarrow> scan pf filepath threshold (Suc i) s acc rest
      | Row e \<Rightarrow> scan pf filepath threshold (Suc i) ts (acc @ [e]) rest
      | Skip \<Rightarrow> scan pf filepath threshold (Suc i) ts acc rest)"

text \<open>
  The files are a map from a path to the list that \<open>readlines\<close> returns; \<open>None\<close> is a file
  that \<open>open\<close> or \<open>readlines\<close> raises on. Nothing in the function catches that exception.
\<close>

definition check_high_await_times ::
  "(string \<Rightarrow> string list option) \<Rightarrow> (string \<Rightarrow> pyfloat option) \<Rightarrow> string \<Rightarrow> pyfloat
     \<Rightarrow> error + entry list" where
  "check_high_await_times fs pf filepath threshold =
     (case fs filepath of
        None \<Rightarrow> Inl OSError
      | Some lines \<Rightarrow> Inr (scan pf filepath threshold 0 [] [] lines))"

subsection \<open>A parser of float literals for the examples\<close>

text \<open>
  The theorems below hold for every parser \<open>pf\<close>. The examples need a concrete one:
  \<open>float_literal\<close> reads what iostat prints, an optional sign and a decimal numeral with
  an optional fraction, and the words \<open>nan\<close> and \<open>inf\<close>, which \<open>float\<close> accepts too. Exponents
  and underscores are left out, and the value is the exact decimal: that is the value of
  \<open>float\<close> whenever the numeral is a double, as every numeral of the examples is.
\<close>

definition digits_val :: "string \<Rightarrow> int" where
  "digits_val s = foldl (\<lambda>n c. 10 * n + (of_char c - 48)) 0 s"

definition unsigned_literal :: "string \<Rightarrow> pyfloat option" where
  "unsigned_literal s =
     (if s = ''nan'' then Some NaN
      else if s = ''inf'' then Some PInf
      else
        (let ip = takeWhile is_decimal s; rest = dropWhile is_decimal s in
         if rest = [] then (if ip = [] then None else Some (Fin (of_int (digits_val ip))))
         else if hd rest = CHR ''.'' \<and> list_all is_decimal (tl rest) \<and> ip @ tl rest \<noteq> []
         then Some (Fin (of_int (digits_val ip)
                         + of_int (digits_val (tl rest)) / 10 ^ length (tl rest)))
         else None))"

fun fneg :: "pyfloat \<Rightarrow> pyfloat" where
  "fneg NaN = NaN"
| "fneg NInf = PInf"
| "fneg PInf = NInf"
| "fneg (Fin x) = Fin (- x)"

definition float_literal :: "string \<Rightarrow> pyfloat option" where
  "float_literal s =
     (case strip s of
        [] \<Rightarrow> None
      | c # cs \<Rightarrow>
          if c = CHR ''-'' then map_option fneg (unsigned_literal cs)
          else if c = CHR ''+'' then unsigned_literal cs
          else unsigned_literal (c # cs))"

section \<open>main\<close>

text \<open>
  Printing is left out: \<open>main\<close> is modelled by the data it computes and then prints.
  The result of \<open>glob.glob\<close> and the parsed arguments are its inputs.
\<close>

record args =
  args_threshold :: pyfloat
  args_detailed :: bool
  args_limit :: "int option"
  args_extreme_only :: bool

text \<open>Lines 164 to 169: the loop over the files; an exception of a call ends it.\<close>

fun collect ::
  "(string \<Rightarrow> string list option) \<Rightarrow> (string \<Rightarrow> pyfloat option) \<Rightarrow> pyfloat \<Rightarrow> entry list
     \<Rightarrow> string list \<Rightarrow> error + entry list" where
  "collect fs pf threshold all_results [] = Inr all_results"
| "collect fs pf threshold all_results (filepath # rest) =
     (case check_high_await_times fs pf filepath threshold of
        Inl err \<Rightarrow> Inl err
      | Inr results \<Rightarrow> collect fs pf threshold (all_results @ results) rest)"

text \<open>The sort key of line 176 and the value every later step calls \<open>max_await\<close>.\<close>

definition peak :: "entry \<Rightarrow> pyfloat" where
  "peak e = py_max (r_await e) (w_await e)"

text \<open>
  \<open>list.sort(key, reverse)\<close> is a builtin: a stable sort that compares keys with \<open><\<close>
  only, and that sorts the reversed list and reverses the result when \<open>reverse\<close> is set.
  It is modelled by a stable insertion sort. Where \<open><\<close> orders the keys totally, every
  stable sort returns the same list. With a NaN among the keys of three or more entries
  the list of CPython can be another one; the statements below use the sort where no key
  is NaN, and the example with a NaN key has two entries, on which the two agree.
\<close>

fun insort_lt :: "('a \<Rightarrow> pyfloat) \<Rightarrow> 'a \<Rightarrow> 'a list \<Rightarrow> 'a list" where
  "insort_lt key x [] = [x]"
| "insort_lt key x (y # ys) =
     (if flt (key y) (key x) then y # insort_lt key x ys else x # y # ys)"

definition sort_lt :: "('a \<Rightarrow> pyfloat) \<Rightarrow> 'a list \<Rightarrow> 'a list" where
  "sort_lt key xs = foldr (insort_lt key) xs []"

definition list_sort :: "('a \<Rightarrow> pyfloat) \<Rightarrow> bool \<Rightarrow> 'a list \<Rightarrow> 'a list" where
  "list_sort key reverse xs =
     (if reverse then rev (sort_lt key (rev xs)) else sort_lt key xs)"

text \<open>\<open>name.split('-')[1]\<close>: an \<open>IndexError\<close> when there is no second piece.\<close>

definition server_of :: "string \<Rightarrow> error + string" where
  "server_of name =
     (case split_sep CHR ''-'' name of
        a # b # rest \<Rightarrow> Inr b
      | _ \<Rightarrow> Inl IndexError)"

text \<open>
  Lines 182 to 187. The dictionary \<open>by_server\<close> keeps its keys in the order of their first
  insertion: an association list with distinct keys.
\<close>

definition dict_append ::
  "(string \<times> entry list) list \<Rightarrow> string \<Rightarrow> entry \<Rightarrow> (string \<times> entry list) list" where
  "dict_append d server e =
     (if server \<in> fst ` set d
      then map (\<lambda>(k, v). if k = server then (k, v @ [e]) else (k, v)) d
      else d @ [(server, [e])])"

fun group_by_server ::
  "(string \<times> entry list) list \<Rightarrow> entry list \<Rightarrow> error + (string \<times> entry list) list" where
  "group_by_server d [] = Inr d"
| "group_by_server d (e # es) =
     (case server_of (filename e) of
        Inl err \<Rightarrow> Inl err
      | Inr server \<Rightarrow> group_by_server (dict_append d server e) es)"

text \<open>Line 203, and the slice \<open>xs[:k]\<close> of line 205, where a negative \<open>k\<close> counts from the end.\<close>

definition display_limit :: "int option \<Rightarrow> 'a list \<Rightarrow> int" where
  "display_limit limit xs =
     (case limit of
        None \<Rightarrow> int (length xs)
      | Some n \<Rightarrow> if n \<noteq> 0 then n else int (length xs))"

definition slice_to :: "'a list \<Rightarrow> int \<Rightarrow> 'a list" where
  "slice_to xs k = (if k < 0 then take (nat (int (length xs) + k)) xs else take (nat k) xs)"

definition top_entries :: "int option \<Rightarrow> 'a list \<Rightarrow> 'a list" where
  "top_entries limit xs = slice_to xs (display_limit limit xs)"

text \<open>Lines 250 to 256: the seven lists of the severity breakdown.\<close>

record breakdown =
  catastrophic :: "entry list"
  critical :: "entry list"
  extreme :: "entry list"
  very_high :: "entry list"
  severe :: "entry list"
  medium_high :: "entry list"
  normal :: "entry list"

definition between :: "pyfloat \<Rightarrow> pyfloat \<Rightarrow> pyfloat \<Rightarrow> bool" where
  "between lo x hi = (fle lo x \<and> flt x hi)"

definition severity_breakdown :: "pyfloat \<Rightarrow> entry list \<Rightarrow> breakdown" where
  "severity_breakdown threshold all_results =
     \<lparr> catastrophic = filter (\<lambda>r. fge (peak r) (Fin 5000)) all_results,
       critical = filter (\<lambda>r. between (Fin 1000) (peak r) (Fin 5000)) all_results,
       extreme = filter (\<lambda>r. between (Fin 500) (peak r) (Fin 1000)) all_results,
       very_high = filter (\<lambda>r. between (Fin 250) (peak r) (Fin 500)) all_results,
       severe = filter (\<lambda>r. between (Fin 200) (peak r) (Fin 250)) all_results,
       medium_high = filter (\<lambda>r. between (Fin 100) (peak r) (Fin 200)) all_results,
       normal = filter (\<lambda>r. between threshold (peak r) (Fin 100)) all_results \<rparr>"

text \<open>Line 266: the Slow line is printed when the list \<open>normal\<close> is not empty.\<close>

definition slow_shown :: "breakdown \<Rightarrow> bool" where
  "slow_shown b = (normal b \<noteq> [])"

definition bucket_total :: "breakdown \<Rightarrow> nat" where
  "bucket_total b =
     length (catastrophic b) + length (critical b) + length (extreme b) + length (very_high b)
     + length (severe b) + length (medium_high b) + length (normal b)"

text \<open>The number of the seven lists that hold a given entry.\<close>

definition buckets_holding :: "breakdown \<Rightarrow> entry \<Rightarrow> nat" where
  "buckets_holding b e =
     length (filter (\<lambda>l. e \<in> set l)
       [catastrophic b, critical b, extreme b, very_high b, severe b, medium_high b, normal b])"

record report =
  all_results :: "entry list"
  by_server :: "(string \<times> entry list) list"
  table_rows :: "entry list"
  detailed_entries :: "entry list option"
  severity :: breakdown

datatype run = NoFiles | NoEntries | Report report

definition effective_threshold :: "args \<Rightarrow> pyfloat" where
  "effective_threshold a = (if args_extreme_only a then Fin 1000 else args_threshold a)"

definition main ::
  "(string \<Rightarrow> string list option) \<Rightarrow> (string \<Rightarrow> pyfloat option) \<Rightarrow> args \<Rightarrow> string list
     \<Rightarrow> error + run" where
  "main fs pf a iostat_files =
     (let threshold = effective_threshold a in
      if iostat_files = [] then Inr NoFiles
      else
        (case collect fs pf threshold [] (sort iostat_files) of
           Inl err \<Rightarrow> Inl err
         | Inr found \<Rightarrow>
             if found = [] then Inr NoEntries
             else
               (let sorted_results = list_sort peak True found in
                case group_by_server [] sorted_results of
                  Inl err \<Rightarrow> Inl err
                | Inr groups \<Rightarrow>
                    Inr (Report
                      \<lparr> all_results = sorted_results,
                        by_server = groups,
                        table_rows = top_entries (args_limit a) sorted_results,
                        detailed_entries =
                          (if args_detailed a
                           then Some (if display_limit (args_limit a) sorted_results \<noteq> 0
                                      then top_entries (args_limit a) sorted_results
                                      else sorted_results)
                           else None),
                        severity = severity_breakdown threshold sorted_results \<rparr>))))"

section \<open>Notions used by the statements\<close>

text \<open>A line that the loop takes for a timestamp line (line 30).\<close>

definition is_stamp :: "string \<Rightarrow> bool" where
  "is_stamp line = re_match timestamp_re (cleaned line)"

text \<open>The value of \<open>current_timestamp\<close> after the loop has passed over the given lines.\<close>

fun carried :: "string \<Rightarrow> string list \<Rightarrow> string" where
  "carried ts [] = ts"
| "carried ts (l # ls) = carried (if is_stamp l then cleaned l else ts) ls"


text \<open>The number of the seven ranges of the severity breakdown that contain a peak.\<close>

definition tiers_claiming :: "pyfloat \<Rightarrow> pyfloat \<Rightarrow> nat" where
  "tiers_claiming threshold p =
     length (filter (\<lambda>holds. holds)
       [fge p (Fin 5000), between (Fin 1000) p (Fin 5000), between (Fin 500) p (Fin 1000),
        between (Fin 250) p (Fin 500), between (Fin 200) p (Fin 250),
        between (Fin 100) p (Fin 200), between threshold p (Fin 100)])"

text \<open>
  The layout \<open>dd/dd/dddd dd:dd:dd\<close> with a following space, by position: digits at the
  fourteen digit positions and the separators between them.
\<close>

definition stamp_digits_ok :: "string \<Rightarrow> bool" where
  "stamp_digits_ok s =
     (list_all (\<lambda>i. is_decimal (s ! i)) [0, 1, 3, 4, 6, 7, 8, 9, 11, 12, 14, 15, 17, 18]
      \<and> s ! 2 = CHR ''/'' \<and> s ! 5 = CHR ''/'' \<and> s ! 10 = CHR '' ''
      \<and> s ! 13 = CHR '':'' \<and> s ! 16 = CHR '':'' \<and> s ! 19 = CHR '' '')"

text \<open>
  The pattern of the specification, \<open>MM/DD/YYYY HH:MM:SS\<close> followed by \<open>AM\<close> or \<open>PM\<close>, at
  the start of a text.
\<close>

definition spec_timestamp :: "string \<Rightarrow> bool" where
  "spec_timestamp s =
     (22 \<le> length s \<and> stamp_digits_ok s
      \<and> (s ! 20 = CHR ''A'' \<or> s ! 20 = CHR ''P'') \<and> s ! 21 = CHR ''M'')"

text \<open>The same layout followed by any two of the letters \<open>A\<close>, \<open>P\<close> and \<open>M\<close>.\<close>

definition loose_timestamp :: "string \<Rightarrow> bool" where
  "loose_timestamp s =
     (22 \<le> length s \<and> stamp_digits_ok s
      \<and> s ! 20 \<in> set ''APM'' \<and> s ! 21 \<in> set ''APM'')"

section \<open>Example inputs\<close>

text \<open>
  The scenario of the specification, followed by a row below the threshold, a row of ten
  tokens and a row whose read await is not a number.
\<close>

definition sample_file :: string where
  "sample_file = ''iostat-10.0.0.1-a.output''"

definition sample_lines :: "string list" where
  "sample_lines =
     [''07/01/2024 03:00:00 PM'' @ [CHR 0x0A],
      ''sda 1.0 2.0 3.0 4.0 0.0 0.0 0.0 0.0 150.5 12.0 0.5 4.0 4.0 0.1 20.0'' @ [CHR 0x0A],
      ''sdb 1.0 2.0 3.0 4.0 0.0 0.0 0.0 0.0 50.0 10.0 0.5 4.0 4.0 0.1 20.0'' @ [CHR 0x0A],
      ''sdc 1.0 2.0 3.0 4.0 0.0 0.0 0.0 0.0 150.5'' @ [CHR 0x0A],
      ''sdd 1.0 2.0 3.0 4.0 0.0 0.0 0.0 0.0 n/a 300.0 0.5 4.0 4.0 0.1 20.0'' @ [CHR 0x0A]]"

definition sample_entry :: entry where
  "sample_entry =
     \<lparr> filename = ''iostat-10.0.0.1-a.output'',
       full_filepath = ''iostat-10.0.0.1-a.output'',
       line_number = 2,
       original_line = ''sda 1.0 2.0 3.0 4.0 0.0 0.0 0.0 0.0 150.5 12.0 0.5 4.0 4.0 0.1 20.0'',
       timestamp = ''07/01/2024 03:00:00 PM'',
       device = ''sda'',
       r_await = Fin 150.5,
       w_await = Fin 12,
       clean_line = ''sda 1.0 2.0 3.0 4.0 0.0 0.0 0.0 0.0 150.5 12.0 0.5 4.0 4.0 0.1 20.0'',
       all_parts = [''sda'', ''1.0'', ''2.0'', ''3.0'', ''4.0'', ''0.0'', ''0.0'', ''0.0'',
                    ''0.0'', ''150.5'', ''12.0'', ''0.5'', ''4.0'', ''4.0'', ''0.1'', ''20.0''] \<rparr>"

text \<open>A file whose first row has \<open>nan\<close> as its read await and 200 as its write await.\<close>

definition nan_file :: string where
  "nan_file = ''iostat-10.0.0.2-b.output''"

definition nan_lines :: "string list" where
  "nan_lines =
     [''sda 1.0 2.0 3.0 4.0 0.0 0.0 0.0 0.0 nan 200.0 0.5 4.0 4.0 0.1 20.0'' @ [CHR 0x0A],
      ''sdb 1.0 2.0 3.0 4.0 0.0 0.0 0.0 0.0 150.0 10.0 0.5 4.0 4.0 0.1 20.0'' @ [CHR 0x0A]]"

definition nan_entry :: entry where
  "nan_entry =
     \<lparr> filename = ''iostat-10.0.0.2-b.output'',
       full_filepath = ''iostat-10.0.0.2-b.output'',
       line_number = 1,
       original_line = ''sda 1.0 2.0 3.0 4.0 0.0 0.0 0.0 0.0 nan 200.0 0.5 4.0 4.0 0.1 20.0'',
       timestamp = [],
       device = ''sda'',
       r_await = NaN,
       w_await = Fin 200,
       clean_line = ''sda 1.0 2.0 3.0 4.0 0.0 0.0 0.0 0.0 nan 200.0 0.5 4.0 4.0 0.1 20.0'',
       all_parts = [''sda'', ''1.0'', ''2.0'', ''3.0'', ''4.0'', ''0.0'', ''0.0'', ''0.0'',
                    ''0.0'', ''nan'', ''200.0'', ''0.5'', ''4.0'', ''4.0'', ''0.1'', ''20.0''] \<rparr>"

definition sdb_entry :: entry where
  "sdb_entry =
     \<lparr> filename = ''iostat-10.0.0.2-b.output'',
       full_filepath = ''iostat-10.0.0.2-b.output'',
       line_number = 2,
       original_line = ''sdb 1.0 2.0 3.0 4.0 0.0 0.0 0.0 0.0 150.0 10.0 0.5 4.0 4.0 0.1 20.0'',
       timestamp = [],
       device = ''sdb'',
       r_await = Fin 150,
       w_await = Fin 10,
       clean_line = ''sdb 1.0 2.0 3.0 4.0 0.0 0.0 0.0 0.0 150.0 10.0 0.5 4.0 4.0 0.1 20.0'',
       all_parts = [''sdb'', ''1.0'', ''2.0'', ''3.0'', ''4.0'', ''0.0'', ''0.0'', ''0.0'',
                    ''0.0'', ''150.0'', ''10.0'', ''0.5'', ''4.0'', ''4.0'', ''0.1'', ''20.0''] \<rparr>"

text \<open>
  A second host: a row whose peak ties with the entry of \<open>sample_file\<close>, a row above 5000
  and a row below 100.
\<close>

definition busy_file :: string where
  "busy_file = ''iostat-10.0.0.3-c.output''"

definition busy_lines :: "string list" where
  "busy_lines =
     [''07/01/2024 03:00:10 PM'' @ [CHR 0x0A],
      ''sda 1.0 2.0 3.0 4.0 0.0 0.0 0.0 0.0 20.0 150.5 0.5 4.0 4.0 0.1 20.0'' @ [CHR 0x0A],
      ''sdb 1.0 2.0 3.0 4.0 0.0 0.0 0.0 0.0 6000.0 3.0 0.5 4.0 4.0 0.1 20.0'' @ [CHR 0x0A],
      ''sdc 1.0 2.0 3.0 4.0 0.0 0.0 0.0 0.0 60.0 70.0 0.5 4.0 4.0 0.1 20.0'' @ [CHR 0x0A]]"

definition busy_a :: entry where
  "busy_a =
     \<lparr> filename = ''iostat-10.0.0.3-c.output'',
       full_filepath = ''iostat-10.0.0.3-c.output'',
       line_number = 2,
       original_line = ''sda 1.0 2.0 3.0 4.0 0.0 0.0 0.0 0.0 20.0 150.5 0.5 4.0 4.0 0.1 20.0'',
       timestamp = ''07/01/2024 03:00:10 PM'',
       device = ''sda'',
       r_await = Fin 20,
       w_await = Fin 150.5,
       clean_line = ''sda 1.0 2.0 3.0 4.0 0.0 0.0 0.0 0.0 20.0 150.5 0.5 4.0 4.0 0.1 20.0'',
       all_parts = [''sda'', ''1.0'', ''2.0'', ''3.0'', ''4.0'', ''0.0'', ''0.0'', ''0.0'', ''0.0'',
                    ''20.0'', ''150.5'', ''0.5'', ''4.0'', ''4.0'', ''0.1'',
                    ''20.0''] \<rparr>"

definition busy_b :: entry where
  "busy_b =
     \<lparr> filename = ''iostat-10.0.0.3-c.output'',
       full_filepath = ''iostat-10.0.0.3-c.output'',
       line_number = 3,
       original_line = ''sdb 1.0 2.0 3.0 4.0 0.0 0.0 0.0 0.0 6000.0 3.0 0.5 4.0 4.0 0.1 20.0'',
       timestamp = ''07/01/2024 03:00:10 PM'',
       device = ''sdb'',
       r_await = Fin 6000,
       w_await = Fin 3,
       clean_line = ''sdb 1.0 2.0 3.0 4.0 0.0 0.0 0.0 0.0 6000.0 3.0 0.5 4.0 4.0 0.1 20.0'',
       all_parts = [''sdb'', ''1.0'', ''2.0'', ''3.0'', ''4.0'', ''0.0'', ''0.0'', ''0.0'', ''0.0'',
                    ''6000.0'', ''3.0'', ''0.5'', ''4.0'', ''4.0'', ''0.1'',
                    ''20.0''] \<rparr>"

definition busy_c :: entry where
  "busy_c =
     \<lparr> filename = ''iostat-10.0.0.3-c.output'',
       full_filepath = ''iostat-10.0.0.3-c.output'',
       line_number = 4,
       original_line = ''sdc 1.0 2.0 3.0 4.0 0.0 0.0 0.0 0.0 60.0 70.0 0.5 4.0 4.0 0.1 20.0'',
       timestamp = ''07/01/2024 03:00:10 PM'',
       device = ''sdc'',
       r_await = Fin 60,
       w_await = Fin 70,
       clean_line = ''sdc 1.0 2.0 3.0 4.0 0.0 0.0 0.0 0.0 60.0 70.0 0.5 4.0 4.0 0.1 20.0'',
       all_parts = [''sdc'', ''1.0'', ''2.0'', ''3.0'', ''4.0'', ''0.0'', ''0.0'', ''0.0'', ''0.0'',
                    ''60.0'', ''70.0'', ''0.5'', ''4.0'', ''4.0'', ''0.1'',
                    ''20.0''] \<rparr>"

text \<open>
  A path without a dash, holding the same lines as \<open>nan_file\<close>. These four files can be
  read; every other path cannot, \<open>missing_file\<close> among them.
\<close>

definition plain_file :: string where
  "plain_file = ''plain.output''"

definition missing_file :: string where
  "missing_file = ''iostat-10.0.0.0-x.output''"

definition sample_fs :: "string \<Rightarrow> string list option" where
  "sample_fs =
     [sample_file \<mapsto> sample_lines, nan_file \<mapsto> nan_lines, busy_file \<mapsto> busy_lines,
      plain_file \<mapsto> nan_lines]"



definition sample_args :: args where
  "sample_args =
     \<lparr> args_threshold = Fin 50, args_detailed = False, args_limit = Some 2,
       args_extreme_only = False \<rparr>"

text \<open>What \<open>main\<close> computes from \<open>sample_file\<close> and \<open>busy_file\<close> with these arguments.\<close>

definition sample_report :: report where
  "sample_report =
     \<lparr> all_results = [busy_b, sample_entry, busy_a, busy_c],
       by_server = [(''10.0.0.3'', [busy_b, busy_a, busy_c]), (''10.0.0.1'', [sample_entry])],
       table_rows = [busy_b, sample_entry],
       detailed_entries = None,
       severity =
         \<lparr> catastrophic = [busy_b], critical = [], extreme = [], very_high = [],
           severe = [], medium_high = [sample_entry, busy_a], normal = [busy_c] \<rparr> \<rparr>"

text \<open>What a run returned, for the examples: its sorted list and its breakdown.\<close>

definition results_of :: "error + run \<Rightarrow> entry list" where
  "results_of r = (case r of Inr (Report rep) \<Rightarrow> all_results rep | _ \<Rightarrow> [])"

definition breakdown_of :: "error + run \<Rightarrow> breakdown option" where
  "breakdown_of r = (case r of Inr (Report rep) \<Rightarrow> Some (severity rep) | _ \<Rightarrow> None)"

text \<open>A line in the layout of a timestamp that ends in \<open>MM\<close>.\<close>

definition mm_line :: string where
  "mm_line = ''01/01/2024 10:00:00 MM'' @ [CHR 0x0A]"

section \<open>Floats and the loop over the lines\<close>

lemma flt_irrefl: "\<not> flt a a"
  by (cases a) auto

lemma fle_flt_trans: "fle a b \<Longrightarrow> flt b c \<Longrightarrow> flt a c"
  by (cases a; cases b; cases c) (auto simp: fle_def)

lemma flt_fle_trans: "flt a b \<Longrightarrow> fle b c \<Longrightarrow> flt a c"
  by (cases a; cases b; cases c) (auto simp: fle_def)

lemma fle_trans: "fle a b \<Longrightarrow> fle b c \<Longrightarrow> fle a c"
  by (cases a; cases b; cases c) (auto simp: fle_def)

lemma not_flt_iff: "a \<noteq> NaN \<Longrightarrow> b \<noteq> NaN \<Longrightarrow> (\<not> flt a b) = fle b a"
  by (cases a; cases b) (auto simp: fle_def)

text \<open>The peak of an entry is NaN exactly when its read await is.\<close>

lemma py_max_NaN_iff: "py_max a b = NaN \<longleftrightarrow> a = NaN"
  by (cases a; cases b) (auto simp: py_max_def fgt_def)

lemma py_max_gt: "a \<noteq> NaN \<Longrightarrow> fgt (py_max a b) t \<longleftrightarrow> fgt a t \<or> fgt b t"
  by (cases a; cases b; cases t) (auto simp: py_max_def fgt_def)

lemma scan_acc: "scan pf fp t i ts acc ls = acc @ scan pf fp t i ts [] ls"
proof (induction ls arbitrary: i ts acc)
  case Nil
  show ?case by simp
next
  case (Cons l ls)
  show ?case
  proof (cases "line_step pf fp t i l ts")
    case (Stamp s)
    then show ?thesis using Cons.IH [of "Suc i" s acc] by simp
  next
    case (Row e)
    then show ?thesis
      using Cons.IH [of "Suc i" ts "acc @ [e]"] Cons.IH [of "Suc i" ts "[e]"] by simp
  next
    case Skip
    then show ?thesis using Cons.IH [of "Suc i" ts acc] by simp
  qed
qed

lemma scan_Cons:
  "scan pf fp t i ts [] (l # ls) =
     (case line_step pf fp t i l ts of
        Stamp s \<Rightarrow> scan pf fp t (Suc i) s [] ls
      | Row e \<Rightarrow> e # scan pf fp t (Suc i) ts [] ls
      | Skip \<Rightarrow> scan pf fp t (Suc i) ts [] ls)"
  using scan_acc [of pf fp t "Suc i" ts "[e]" ls for e]
  by (simp split: outcome.split)

lemma line_step_Stamp_iff:
  "line_step pf fp t i l ts = Stamp s \<longleftrightarrow> is_stamp l \<and> s = cleaned l"
  by (auto simp: line_step_def is_stamp_def Let_def split: option.splits if_splits)

lemma line_step_Row:
  assumes "line_step pf fp t i l ts = Row e"
  shows "\<not> is_stamp l" and "line_number e = Suc i" and "timestamp e = ts"
    and "full_filepath e = fp" and "original_line e = strip l"
    and "fgt (r_await e) t \<or> fgt (w_await e) t"
    and "16 \<le> length (split_ws (cleaned l))"
    and "pf (split_ws (cleaned l) ! 9) = Some (r_await e)"
    and "pf (split_ws (cleaned l) ! 10) = Some (w_await e)"
  using assms
  by (auto simp: line_step_def is_stamp_def Let_def split: option.splits if_splits)

lemma line_step_stamp: "is_stamp l \<Longrightarrow> line_step pf fp t i l ts = Stamp (cleaned l)"
  by (simp add: line_step_Stamp_iff)

lemma scan_step:
  "scan pf fp t i ts [] (l # ls) =
     (case line_step pf fp t i l ts of Row e \<Rightarrow> [e] | _ \<Rightarrow> [])
     @ scan pf fp t (Suc i) (carried ts [l]) [] ls"
proof (cases "is_stamp l")
  case True
  then show ?thesis
    by (simp add: scan_Cons line_step_stamp del: scan.simps)
next
  case False
  then show ?thesis
    by (cases "line_step pf fp t i l ts")
       (simp_all add: scan_Cons line_step_Stamp_iff del: scan.simps)
qed

lemma scan_set:
  "e \<in> set (scan pf fp t i ts [] ls) \<Longrightarrow>
     \<exists>j < length ls. line_step pf fp t (i + j) (ls ! j) (carried ts (take j ls)) = Row e"
proof (induction ls arbitrary: i ts)
  case Nil
  then show ?case by simp
next
  case (Cons l ls)
  from Cons.prems have
    "line_step pf fp t i l ts = Row e \<or> e \<in> set (scan pf fp t (Suc i) (carried ts [l]) [] ls)"
    by (auto simp: scan_step simp del: scan.simps split: outcome.splits)
  then show ?case
  proof
    assume "line_step pf fp t i l ts = Row e"
    then show ?thesis by (intro exI [of _ 0]) simp
  next
    assume "e \<in> set (scan pf fp t (Suc i) (carried ts [l]) [] ls)"
    from Cons.IH [OF this] obtain j where
      "j < length ls"
      "line_step pf fp t (Suc i + j) (ls ! j) (carried (carried ts [l]) (take j ls)) = Row e"
      by blast
    then show ?thesis by (intro exI [of _ "Suc j"]) simp
  qed
qed

lemma scan_line_numbers:
  "e \<in> set (scan pf fp t i ts [] ls) \<Longrightarrow>
     i < line_number e \<and> line_number e \<le> i + length ls
     \<and> line_step pf fp t (line_number e - 1) (ls ! (line_number e - 1 - i))
           (carried ts (take (line_number e - 1 - i) ls)) = Row e"
proof -
  assume "e \<in> set (scan pf fp t i ts [] ls)"
  from scan_set [OF this] obtain j where j: "j < length ls"
    and row: "line_step pf fp t (i + j) (ls ! j) (carried ts (take j ls)) = Row e"
    by blast
  from line_step_Row(2) [OF row] have "line_number e = Suc (i + j)" .
  with j row show ?thesis by simp
qed


lemma line_step_malformed:
  assumes "length (split_ws (cleaned line)) < 16
           \<or> pf (split_ws (cleaned line) ! 9) = None
           \<or> pf (split_ws (cleaned line) ! 10) = None"
  shows "line_step pf fp t i line ts = (if is_stamp line then Stamp (cleaned line) else Skip)"
  using assms by (auto simp: line_step_def is_stamp_def Let_def split: option.splits)

lemma scan_no_row:
  assumes "line_step pf fp t i line ts = (if is_stamp line then Stamp (cleaned line) else Skip)"
  shows "scan pf fp t i ts acc (line # rest)
         = scan pf fp t (Suc i) (if is_stamp line then cleaned line else ts) acc rest"
  using assms by simp

lemma fgt_mono: "fle t1 t2 \<Longrightarrow> fgt a t2 \<Longrightarrow> fgt a t1"
  unfolding fgt_def by (rule fle_flt_trans)

lemma line_step_raise:
  assumes "fle t1 t2"
  shows "(case line_step pf fp t2 i l ts of Row e \<Rightarrow> [e] | _ \<Rightarrow> [])
         = filter (\<lambda>e. fgt (r_await e) t2 \<or> fgt (w_await e) t2)
             (case line_step pf fp t1 i l ts of Row e \<Rightarrow> [e] | _ \<Rightarrow> [])"
  using fgt_mono [OF assms]
  by (auto simp: line_step_def Let_def split: option.splits)

lemma scan_raise:
  assumes "fle t1 t2"
  shows "scan pf fp t2 i ts [] ls
         = filter (\<lambda>e. fgt (r_await e) t2 \<or> fgt (w_await e) t2) (scan pf fp t1 i ts [] ls)"
proof (induction ls arbitrary: i ts)
  case Nil
  show ?case by simp
next
  case (Cons l ls)
  show ?case
    unfolding scan_step [of pf fp t2 i ts l ls] scan_step [of pf fp t1 i ts l ls]
    by (simp only: filter_append line_step_raise [OF assms] Cons.IH)
qed





lemma collect_outputs:
  "collect fs pf t acc files = Inr es \<Longrightarrow>
     \<exists>outs. map (\<lambda>f. check_high_await_times fs pf f t) files = map Inr outs
            \<and> es = acc @ concat outs"
proof (induction files arbitrary: acc)
  case Nil
  then show ?case by simp
next
  case (Cons f files)
  from Cons.prems obtain out where out: "check_high_await_times fs pf f t = Inr out"
    and rest: "collect fs pf t (acc @ out) files = Inr es"
    by (auto split: sum.splits)
  from Cons.IH [OF rest] obtain outs where
    "map (\<lambda>f. check_high_await_times fs pf f t) files = map Inr outs"
    "es = (acc @ out) @ concat outs"
    by blast
  with out show ?case
    by (intro exI [of _ "out # outs"]) simp
qed

lemma collect_entry:
  assumes "collect fs pf t [] files = Inr es" and "e \<in> set es"
  shows "\<exists>f \<in> set files. \<exists>out. check_high_await_times fs pf f t = Inr out \<and> e \<in> set out"
proof -
  from collect_outputs [OF assms(1)] obtain outs where
    m: "map (\<lambda>f. check_high_await_times fs pf f t) files = map Inr outs"
    and es: "es = concat outs"
    by auto
  from assms(2) es obtain out where "out \<in> set outs" "e \<in> set out"
    by auto
  then obtain k where k: "k < length outs" "outs ! k = out"
    by (auto simp: in_set_conv_nth)
  from m have len: "length files = length outs"
    by (metis length_map)
  from m k len have "check_high_await_times fs pf (files ! k) t = Inr out"
    by (metis nth_map)
  with k len \<open>e \<in> set out\<close> show ?thesis
    by (metis nth_mem)
qed

section \<open>The loop over the files, grouping and sorting\<close>

lemma check_error: "check_high_await_times fs pf f t = Inl err \<Longrightarrow> err = OSError"
  by (auto simp: check_high_await_times_def split: option.splits)

lemma collect_unreadable:
  "f \<in> set files \<Longrightarrow> fs f = None \<Longrightarrow> collect fs pf t acc files = Inl OSError"
proof (induction files arbitrary: acc)
  case Nil
  then show ?case by simp
next
  case (Cons g files)
  show ?case
  proof (cases "check_high_await_times fs pf g t")
    case (Inl err)
    then show ?thesis using check_error [OF Inl] by simp
  next
    case (Inr out)
    with Cons.prems have "f \<in> set files"
      by (auto simp: check_high_await_times_def)
    from Cons.IH [OF this Cons.prems(2)] Inr show ?thesis by simp
  qed
qed

text \<open>A split has a first piece: \<open>hd\<close> in \<open>cleaned\<close> is applied to a list that is not empty.\<close>

lemma split_sep_nonempty: "split_sep c s \<noteq> []"
  by (induction s) (auto simp: split_sep_def)







lemma set_insort_lt: "set (insort_lt key x xs) = insert x (set xs)"
  by (induction xs) auto

lemma set_sort_lt: "set (sort_lt key xs) = set xs"
  by (induction xs) (simp_all add: sort_lt_def set_insort_lt)

lemma set_list_sort: "set (list_sort key r xs) = set xs"
  by (simp add: list_sort_def set_sort_lt)

lemma filter_insort_lt:
  "filter (\<lambda>e. key e = k) (insort_lt key x ys)
   = (if key x = k then x # filter (\<lambda>e. key e = k) ys else filter (\<lambda>e. key e = k) ys)"
  by (induction ys) (auto simp: flt_irrefl)

lemma filter_sort_lt: "filter (\<lambda>e. key e = k) (sort_lt key xs) = filter (\<lambda>e. key e = k) xs"
  by (induction xs) (simp_all add: sort_lt_def filter_insort_lt)

lemma filter_list_sort:
  "filter (\<lambda>e. key e = k) (list_sort key r xs) = filter (\<lambda>e. key e = k) xs"
  by (simp add: list_sort_def filter_sort_lt rev_filter [symmetric])

lemma flt_imp_fle: "flt a b \<Longrightarrow> fle a b"
  by (simp add: fle_def)

lemma sorted_insort_lt:
  assumes "sorted_wrt (\<lambda>a b. fle (key a) (key b)) ys"
    and "key x \<noteq> NaN" and "\<forall>y \<in> set ys. key y \<noteq> NaN"
  shows "sorted_wrt (\<lambda>a b. fle (key a) (key b)) (insort_lt key x ys)"
  using assms
proof (induction ys)
  case Nil
  then show ?case by simp
next
  case (Cons y ys)
  show ?case
  proof (cases "flt (key y) (key x)")
    case True
    with Cons show ?thesis
      by (auto simp: set_insort_lt flt_imp_fle)
  next
    case False
    with Cons.prems have xy: "fle (key x) (key y)"
      by (simp add: not_flt_iff)
    with Cons.prems have "\<forall>z \<in> set ys. fle (key x) (key z)"
      by (auto intro: fle_trans)
    with False xy Cons.prems(1) show ?thesis by simp
  qed
qed

lemma sorted_sort_lt:
  "\<forall>x \<in> set xs. key x \<noteq> NaN \<Longrightarrow> sorted_wrt (\<lambda>a b. fle (key a) (key b)) (sort_lt key xs)"
proof (induction xs)
  case Nil
  show ?case by (simp add: sort_lt_def)
next
  case (Cons x xs)
  then have "sorted_wrt (\<lambda>a b. fle (key a) (key b)) (insort_lt key x (sort_lt key xs))"
    by (intro sorted_insort_lt) (simp_all add: set_sort_lt)
  then show ?case by (simp add: sort_lt_def)
qed

lemma descending_list_sort:
  assumes "\<forall>x \<in> set xs. key x \<noteq> NaN"
  shows "sorted_wrt (\<lambda>a b. fge (key a) (key b)) (list_sort key True xs)"
proof -
  from assms have "sorted_wrt (\<lambda>a b. fle (key a) (key b)) (sort_lt key (rev xs))"
    by (intro sorted_sort_lt) simp
  then show ?thesis
    by (simp add: list_sort_def sorted_wrt_rev fge_def)
qed

section \<open>The severity breakdown\<close>

lemma tiers_claiming_NaN: "tiers_claiming t NaN = 0"
  by (simp add: tiers_claiming_def between_def fle_def fge_def)

lemma tiers_claiming_le: "tiers_claiming t p \<le> 1"
  by (cases p; cases t) (auto simp: tiers_claiming_def between_def fle_def fge_def)

lemma tiers_claiming_one: "fle t p \<Longrightarrow> tiers_claiming t p = 1"
  by (cases p; cases t) (auto simp: tiers_claiming_def between_def fle_def fge_def)

lemma buckets_holding_eq:
  "buckets_holding (severity_breakdown t xs) e
   = (if e \<in> set xs then tiers_claiming t (peak e) else 0)"
  by (simp add: buckets_holding_def severity_breakdown_def tiers_claiming_def)

lemma bucket_total_eq:
  "bucket_total (severity_breakdown t xs) = sum_list (map (\<lambda>e. tiers_claiming t (peak e)) xs)"
  by (induction xs) (auto simp: bucket_total_def severity_breakdown_def tiers_claiming_def)

lemma sum_tiers:
  assumes "\<forall>e \<in> set xs. peak e \<noteq> NaN \<longrightarrow> fle t (peak e)"
  shows "sum_list (map (\<lambda>e. tiers_claiming t (peak e)) xs)
         = length (filter (\<lambda>e. peak e \<noteq> NaN) xs)"
  using assms by (induction xs) (auto simp: tiers_claiming_NaN tiers_claiming_one)

lemma peak_above:
  assumes "fgt r t \<or> fgt w t" and "py_max r w \<noteq> NaN"
  shows "fle t (py_max r w)"
  using assms by (cases r; cases w; cases t) (auto simp: py_max_def fgt_def fle_def)

lemma check_entry_above:
  assumes "check_high_await_times fs pf fp t = Inr es" and "e \<in> set es"
  shows "fgt (r_await e) t \<or> fgt (w_await e) t"
proof -
  from assms obtain ls where "e \<in> set (scan pf fp t 0 [] [] ls)"
    by (auto simp: check_high_await_times_def split: option.splits)
  from scan_set [OF this] obtain j ts' where "line_step pf fp t (0 + j) (ls ! j) ts' = Row e"
    by blast
  from line_step_Row(6) [OF this] show ?thesis .
qed

lemma collect_entry_above:
  assumes "collect fs pf t [] files = Inr es" and "e \<in> set es"
  shows "fgt (r_await e) t \<or> fgt (w_await e) t"
proof -
  from collect_entry [OF assms] obtain f out where
    "check_high_await_times fs pf f t = Inr out" "e \<in> set out"
    by blast
  then show ?thesis by (rule check_entry_above)
qed

section \<open>The timestamp pattern\<close>

lemma match_rep_length: "match_rep k n s = Some r \<Longrightarrow> length s = n + length r"
  by (induction k n s rule: match_rep.induct) (auto split: if_splits)

lemma re_match_length: "re_match ps s \<Longrightarrow> sum_list (map snd ps) \<le> length s"
proof (induction ps arbitrary: s)
  case Nil
  then show ?case by simp
next
  case (Cons p ps)
  obtain k n where p: "p = (k, n)" by (cases p)
  from Cons.prems p obtain r where r: "match_rep k n s = Some r" and "re_match ps r"
    by (auto split: option.splits)
  from Cons.IH [OF this(2)] match_rep_length [OF r] p show ?case by simp
qed

lemma re_match_timestamp_length: "re_match timestamp_re s \<Longrightarrow> 22 \<le> length s"
  using re_match_length [of timestamp_re s] by (simp add: timestamp_re_def)

lemma long_string:
  assumes "22 \<le> length s"
  obtains c0 c1 c2 c3 c4 c5 c6 c7 c8 c9 c10 c11 c12 c13 c14 c15 c16 c17 c18 c19 c20 c21 r
  where "s = c0 # c1 # c2 # c3 # c4 # c5 # c6 # c7 # c8 # c9 # c10 # c11 # c12 # c13 # c14
             # c15 # c16 # c17 # c18 # c19 # c20 # c21 # r"
proof -
  from assms have "Suc (Suc (Suc (Suc (Suc (Suc (Suc (Suc (Suc (Suc (Suc (Suc (Suc (Suc (Suc
    (Suc (Suc (Suc (Suc (Suc (Suc (Suc 0))))))))))))))))))))) \<le> length s"
    by simp
  then show thesis
    unfolding Suc_le_length_iff by (elim exE conjE, hypsubst) (rule that, assumption)
qed

lemma re_match_timestamp_iff: "re_match timestamp_re s = loose_timestamp s"
proof (cases "22 \<le> length s")
  case False
  then show ?thesis
    using re_match_timestamp_length [of s] by (auto simp: loose_timestamp_def)
next
  case True
  then obtain c0 c1 c2 c3 c4 c5 c6 c7 c8 c9 c10 c11 c12 c13 c14 c15 c16 c17 c18 c19 c20 c21 r
    where s: "s = c0 # c1 # c2 # c3 # c4 # c5 # c6 # c7 # c8 # c9 # c10 # c11 # c12 # c13 # c14
             # c15 # c16 # c17 # c18 # c19 # c20 # c21 # r"
    by (rule long_string)
  show ?thesis
    unfolding s timestamp_re_def loose_timestamp_def stamp_digits_ok_def
    by (simp add: eval_nat_numeral)
qed


lemma spec_imp_loose: "spec_timestamp s \<Longrightarrow> loose_timestamp s"
  by (auto simp: spec_timestamp_def loose_timestamp_def)

section \<open>The record extractor\<close>

text \<open>
  C1, as amended. Every entry that \<open>check_high_await_times\<close> returns has a read await or a
  write await greater than the threshold (line 45), and its peak \<open>max(r_await, w_await)\<close> is
  greater than the threshold whenever its read await is not NaN. A line whose two parsed
  awaits are both at or below the threshold appends no entry.
\<close>

theorem extractor_exceeds_threshold:
  "(check_high_await_times fs pf fp t = Inr es \<longrightarrow>
      (\<forall>e \<in> set es. (fgt (r_await e) t \<or> fgt (w_await e) t)
                     \<and> (r_await e \<noteq> NaN \<longrightarrow> fgt (peak e) t)))
   \<and> (pf (split_ws (cleaned line) ! 9) = Some r \<longrightarrow>
      pf (split_ws (cleaned line) ! 10) = Some w \<longrightarrow>
      fle r t \<longrightarrow> fle w t \<longrightarrow>
      line_step pf fp t i line ts = (if is_stamp line then Stamp (cleaned line) else Skip))"
proof (intro conjI impI ballI)
  fix e
  assume "check_high_await_times fs pf fp t = Inr es" and "e \<in> set es"
  then obtain ls where "e \<in> set (scan pf fp t 0 [] [] ls)"
    by (auto simp: check_high_await_times_def split: option.splits)
  from scan_set [OF this] obtain j ts' where "line_step pf fp t (0 + j) (ls ! j) ts' = Row e"
    by blast
  from line_step_Row(6) [OF this] show "fgt (r_await e) t \<or> fgt (w_await e) t" .
  then show "fgt (peak e) t" if "r_await e \<noteq> NaN"
    using that by (simp add: peak_def py_max_gt)
next
  assume "pf (split_ws (cleaned line) ! 9) = Some r"
    and "pf (split_ws (cleaned line) ! 10) = Some w" and "fle r t" and "fle w t"
  moreover have "\<not> fgt r t" "\<not> fgt w t"
    using \<open>fle r t\<close> \<open>fle w t\<close> flt_fle_trans flt_irrefl by (auto simp: fgt_def)
  ultimately show
    "line_step pf fp t i line ts = (if is_stamp line then Stamp (cleaned line) else Skip)"
    by (simp add: line_step_def is_stamp_def Let_def)
qed

theorem extractor_exceeds_threshold_witness:
  "check_high_await_times sample_fs float_literal sample_file (Fin 100) = Inr [sample_entry]
   \<and> r_await sample_entry \<noteq> NaN
   \<and> fgt (peak sample_entry) (Fin 100)
   \<and> float_literal (split_ws (cleaned (sample_lines ! 2)) ! 9) = Some (Fin 50)
   \<and> float_literal (split_ws (cleaned (sample_lines ! 2)) ! 10) = Some (Fin 10)
   \<and> fle (Fin 50) (Fin 100) \<and> fle (Fin 10) (Fin 100)
   \<and> line_step float_literal sample_file (Fin 100) 2 (sample_lines ! 2)
        ''07/01/2024 03:00:00 PM'' = Skip"
proof -
  have out: "check_high_await_times sample_fs float_literal sample_file (Fin 100)
             = Inr [sample_entry]"
    by code_simp
  have r: "float_literal (split_ws (cleaned (sample_lines ! 2)) ! 9) = Some (Fin 50)"
    by code_simp
  have w: "float_literal (split_ws (cleaned (sample_lines ! 2)) ! 10) = Some (Fin 10)"
    by code_simp
  have le: "fle (Fin 50) (Fin 100)" "fle (Fin 10) (Fin 100)"
    by code_simp+
  have nn: "r_await sample_entry \<noteq> NaN"
    by code_simp
  have ns: "\<not> is_stamp (sample_lines ! 2)"
    by code_simp
  from extractor_exceeds_threshold
         [where fs = sample_fs and pf = float_literal and fp = sample_file and t = "Fin 100"
            and es = "[sample_entry]" and line = "sample_lines ! 2" and r = "Fin 50"
            and w = "Fin 10" and i = 2 and ts = "''07/01/2024 03:00:00 PM''"]
  show ?thesis
    using out r w le nn ns by simp
qed

text \<open>
  C1 as stated fails: the row with \<open>nan\<close> and 200 is returned at the threshold 100, since
  200 is greater than 100, and its peak \<open>max(nan, 200.0)\<close> is NaN, which is not greater
  than 100.
\<close>

theorem nan_peak_not_above_threshold:
  "check_high_await_times sample_fs float_literal nan_file (Fin 100)
     = Inr [nan_entry, sdb_entry]
   \<and> \<not> fgt (py_max (r_await nan_entry) (w_await nan_entry)) (Fin 100)"
  by code_simp

text \<open>
  C9. A line with fewer than 16 tokens, or whose token 9 or 10 is rejected by \<open>float\<close>,
  appends no entry: unless it is a timestamp line, the iteration does nothing. The loop goes
  on with the next line, and the function returns its list, in which no entry has the
  number of that line.
\<close>

theorem malformed_line_skipped:
  assumes "length (split_ws (cleaned line)) < 16
           \<or> pf (split_ws (cleaned line) ! 9) = None
           \<or> pf (split_ws (cleaned line) ! 10) = None"
  shows "line_step pf fp t i line ts = (if is_stamp line then Stamp (cleaned line) else Skip)
         \<and> scan pf fp t i ts acc (line # rest)
           = scan pf fp t (Suc i) (if is_stamp line then cleaned line else ts) acc rest
         \<and> (fs fp = Some (before @ line # rest) \<longrightarrow>
              (\<exists>es. check_high_await_times fs pf fp t = Inr es
                    \<and> (\<forall>e \<in> set es. line_number e \<noteq> Suc (length before))))"
proof (intro conjI impI)
  show step: "line_step pf fp t i line ts
              = (if is_stamp line then Stamp (cleaned line) else Skip)" for i ts
    by (rule line_step_malformed [OF assms])
  show "scan pf fp t i ts acc (line # rest)
        = scan pf fp t (Suc i) (if is_stamp line then cleaned line else ts) acc rest"
    by (rule scan_no_row [OF step])
  assume fs: "fs fp = Some (before @ line # rest)"
  have "line_number e \<noteq> Suc (length before)"
    if "e \<in> set (scan pf fp t 0 [] [] (before @ line # rest))" for e
  proof
    assume n: "line_number e = Suc (length before)"
    from scan_line_numbers [OF that] n
    have "line_step pf fp t (length before) line
            (carried [] (take (length before) (before @ line # rest))) = Row e"
      by simp
    with step show False by (simp split: if_splits)
  qed
  with fs show "\<exists>es. check_high_await_times fs pf fp t = Inr es
                    \<and> (\<forall>e \<in> set es. line_number e \<noteq> Suc (length before))"
    by (simp add: check_high_await_times_def)
qed

theorem malformed_line_skipped_witness:
  "length (split_ws (cleaned (sample_lines ! 3))) < 16
   \<and> line_step float_literal sample_file (Fin 100) 3 (sample_lines ! 3)
        ''07/01/2024 03:00:00 PM'' = Skip
   \<and> sample_fs sample_file
       = Some (take 3 sample_lines @ (sample_lines ! 3) # drop 4 sample_lines)
   \<and> check_high_await_times sample_fs float_literal sample_file (Fin 100)
       = Inr [sample_entry]
   \<and> line_number sample_entry \<noteq> 4
   \<and> float_literal (split_ws (cleaned (sample_lines ! 4)) ! 9) = None
   \<and> float_literal (split_ws (cleaned (sample_lines ! 4)) ! 10) = Some (Fin 300)
   \<and> line_step float_literal sample_file (Fin 100) 4 (sample_lines ! 4)
        ''07/01/2024 03:00:00 PM'' = Skip"
proof -
  have short: "length (split_ws (cleaned (sample_lines ! 3))) < 16"
    by code_simp
  have ns: "\<not> is_stamp (sample_lines ! 3)"
    by code_simp
  have fs: "sample_fs sample_file
            = Some (take 3 sample_lines @ (sample_lines ! 3) # drop 4 sample_lines)"
    by code_simp
  have len: "length (take 3 sample_lines) = 3"
    by code_simp
  have out: "check_high_await_times sample_fs float_literal sample_file (Fin 100)
             = Inr [sample_entry]"
    by code_simp
  note inst = malformed_line_skipped
         [where line = "sample_lines ! 3" and pf = float_literal and fp = sample_file
            and t = "Fin 100" and i = 3 and ts = "''07/01/2024 03:00:00 PM''"
            and fs = sample_fs and before = "take 3 sample_lines"
            and rest = "drop 4 sample_lines", OF disjI1 [OF short]]
  from inst ns
  have step: "line_step float_literal sample_file (Fin 100) 3 (sample_lines ! 3)
                ''07/01/2024 03:00:00 PM'' = Skip"
    by simp
  from inst fs obtain es where
    es: "check_high_await_times sample_fs float_literal sample_file (Fin 100) = Inr es"
    and no: "\<forall>e \<in> set es. line_number e \<noteq> Suc (length (take 3 sample_lines))"
    by blast
  from es out have "es = [sample_entry]"
    by simp
  with no len have "line_number sample_entry \<noteq> 4"
    by simp
  have bad: "float_literal (split_ws (cleaned (sample_lines ! 4)) ! 9) = None"
    by code_simp
  have good: "float_literal (split_ws (cleaned (sample_lines ! 4)) ! 10) = Some (Fin 300)"
    by code_simp
  have ns4: "\<not> is_stamp (sample_lines ! 4)"
    by code_simp
  from malformed_line_skipped
         [where line = "sample_lines ! 4" and pf = float_literal and fp = sample_file
            and t = "Fin 100" and i = 4 and ts = "''07/01/2024 03:00:00 PM''",
          OF disjI2 [OF disjI1 [OF bad]]] ns4
  have step4: "line_step float_literal sample_file (Fin 100) 4 (sample_lines ! 4)
                 ''07/01/2024 03:00:00 PM'' = Skip"
    by simp
  from short step fs out \<open>line_number sample_entry \<noteq> 4\<close> bad good step4 show ?thesis
    by (intro conjI)
qed

text \<open>
  C10, as amended. When the threshold is raised from \<open>t1\<close> to \<open>t2\<close>, the entries returned
  are those returned at \<open>t1\<close> whose read await or write await is greater than \<open>t2\<close>, unchanged
  and in the same order; these are the entries whose peak is greater than \<open>t2\<close> when no read
  await is NaN.
\<close>

theorem raising_threshold_filters:
  assumes "fle t1 t2" and "check_high_await_times fs pf fp t1 = Inr es"
  shows "check_high_await_times fs pf fp t2
           = Inr (filter (\<lambda>e. fgt (r_await e) t2 \<or> fgt (w_await e) t2) es)
         \<and> ((\<forall>e \<in> set es. r_await e \<noteq> NaN) \<longrightarrow>
              check_high_await_times fs pf fp t2 = Inr (filter (\<lambda>e. fgt (peak e) t2) es))"
proof -
  from assms(2) obtain ls where ls: "fs fp = Some ls" and es: "es = scan pf fp t1 0 [] [] ls"
    by (auto simp: check_high_await_times_def split: option.splits)
  have first: "check_high_await_times fs pf fp t2
           = Inr (filter (\<lambda>e. fgt (r_await e) t2 \<or> fgt (w_await e) t2) es)"
    using ls es scan_raise [OF assms(1)] by (simp add: check_high_await_times_def)
  have "filter (\<lambda>e. fgt (r_await e) t2 \<or> fgt (w_await e) t2) es
        = filter (\<lambda>e. fgt (peak e) t2) es"
    if "\<forall>e \<in> set es. r_await e \<noteq> NaN"
    using that by (intro filter_cong) (simp_all add: peak_def py_max_gt)
  with first show ?thesis by simp
qed

theorem raising_threshold_filters_witness:
  "fle (Fin 100) (Fin 151)
   \<and> check_high_await_times sample_fs float_literal sample_file (Fin 100) = Inr [sample_entry]
   \<and> r_await sample_entry \<noteq> NaN
   \<and> \<not> fgt (peak sample_entry) (Fin 151)
   \<and> check_high_await_times sample_fs float_literal sample_file (Fin 151) = Inr []"
proof -
  have le: "fle (Fin 100) (Fin 151)"
    by code_simp
  have out: "check_high_await_times sample_fs float_literal sample_file (Fin 100)
             = Inr [sample_entry]"
    by code_simp
  have nn: "r_await sample_entry \<noteq> NaN"
    by code_simp
  have below: "\<not> fgt (peak sample_entry) (Fin 151)"
    by code_simp
  have all: "\<forall>e \<in> set [sample_entry]. r_await e \<noteq> NaN"
    using nn by simp
  have step: "check_high_await_times sample_fs float_literal sample_file (Fin 151)
        = Inr (filter (\<lambda>e. fgt (peak e) (Fin 151)) [sample_entry])"
    using raising_threshold_filters [OF le out] all by blast
  have none: "filter (\<lambda>e. fgt (peak e) (Fin 151)) [sample_entry] = []"
    using below by simp
  from step none
  have res: "check_high_await_times sample_fs float_literal sample_file (Fin 151) = Inr []"
    by simp
  from le out nn below res show ?thesis
    by (intro conjI)
qed

text \<open>
  C10 as stated fails: at the threshold 50 and at the threshold 100 the file with the \<open>nan\<close>
  row gives the same two entries, and the peak of the first is NaN, which is not greater
  than 100: the output at 100 is not the part of the output at 50 with a peak above 100.
\<close>

theorem nan_entry_survives_raise:
  "fle (Fin 50) (Fin 100)
   \<and> check_high_await_times sample_fs float_literal nan_file (Fin 50)
       = Inr [nan_entry, sdb_entry]
   \<and> check_high_await_times sample_fs float_literal nan_file (Fin 100)
       = Inr [nan_entry, sdb_entry]
   \<and> \<not> fgt (py_max (r_await nan_entry) (w_await nan_entry)) (Fin 100)"
  by code_simp



text \<open>
  What line 30 accepts. The regular expression matches a cleaned text exactly when the
  text begins with \<open>dd/dd/dddd dd:dd:dd\<close>, a space and two characters of the class
  \<open>[APM]\<close>; the loop then sets the carried timestamp to the text and goes on to the next
  line. Every text that begins with the pattern of the specification is matched.
\<close>

lemma stamp_step_iff:
  "(line_step pf fp t i line ts = Stamp s
      \<longleftrightarrow> loose_timestamp (cleaned line) \<and> s = cleaned line)
   \<and> (loose_timestamp (cleaned line) \<longrightarrow>
        scan pf fp t i ts acc (line # rest) = scan pf fp t (Suc i) (cleaned line) acc rest)
   \<and> (spec_timestamp (cleaned line) \<longrightarrow>
        line_step pf fp t i line ts = Stamp (cleaned line))"
proof (intro conjI impI)
  show iff: "line_step pf fp t i line ts = Stamp s
      \<longleftrightarrow> loose_timestamp (cleaned line) \<and> s = cleaned line" for s
    by (simp add: line_step_Stamp_iff is_stamp_def re_match_timestamp_iff)
  show "scan pf fp t i ts acc (line # rest) = scan pf fp t (Suc i) (cleaned line) acc rest"
    if "loose_timestamp (cleaned line)"
    using that iff [of "cleaned line"] by simp
  show "line_step pf fp t i line ts = Stamp (cleaned line)" if "spec_timestamp (cleaned line)"
    using spec_imp_loose [OF that] iff [of "cleaned line"] by simp
qed

text \<open>
  C7. The claim holds in one direction only: a text in the pattern \<open>MM/DD/YYYY HH:MM:SS\<close>
  followed by \<open>AM\<close> or \<open>PM\<close> is taken for a timestamp line, and so is the text
  \<open>01/01/2024 10:00:00 MM\<close>, which ends in neither. The class \<open>[APM]{2}\<close> of line 30
  stands where the alternation of \<open>AM\<close> and \<open>PM\<close> is meant and admits each of the three
  letters at both places. The line is consumed as a timestamp line, and the entry of the
  row after it carries that text as its timestamp.
\<close>

theorem mm_taken_for_timestamp:
  "cleaned mm_line = ''01/01/2024 10:00:00 MM''
   \<and> \<not> spec_timestamp (cleaned mm_line)
   \<and> line_step float_literal sample_file (Fin 100) 0 mm_line []
       = Stamp ''01/01/2024 10:00:00 MM''
   \<and> scan float_literal sample_file (Fin 100) 0 [] [] [mm_line, sample_lines ! 1]
       = [sample_entry \<lparr> timestamp := ''01/01/2024 10:00:00 MM'' \<rparr>]"
  by code_simp


section \<open>The aggregation in main\<close>

text \<open>
  C5, as amended. When one of the input files cannot be read, the call of
  \<open>check_high_await_times\<close> for it raises, nothing catches the exception, and the whole run
  ends with it: \<open>main\<close> produces no result from any file.
\<close>

theorem unreadable_file_fails_run:
  assumes "f \<in> set iostat_files" and "fs f = None"
  shows "check_high_await_times fs pf f (effective_threshold a) = Inl OSError
         \<and> main fs pf a iostat_files = Inl OSError"
proof
  show "check_high_await_times fs pf f (effective_threshold a) = Inl OSError"
    using assms(2) by (simp add: check_high_await_times_def)
  from assms(1) have "f \<in> set (sort iostat_files)" and "iostat_files \<noteq> []"
    by auto
  with assms(2) show "main fs pf a iostat_files = Inl OSError"
    by (simp add: main_def Let_def collect_unreadable [where f = f and fs = fs])
qed

theorem unreadable_file_fails_run_witness:
  "missing_file \<in> set [missing_file, sample_file]
   \<and> sample_fs missing_file = None
   \<and> main sample_fs float_literal sample_args [missing_file, sample_file] = Inl OSError"
proof -
  have m: "missing_file \<in> set [missing_file, sample_file]"
    by simp
  have n: "sample_fs missing_file = None"
    by code_simp
  from unreadable_file_fails_run
         [where f = missing_file and fs = sample_fs and pf = float_literal
            and a = sample_args and iostat_files = "[missing_file, sample_file]", OF m n]
  have "main sample_fs float_literal sample_args [missing_file, sample_file] = Inl OSError"
    by (rule conjunct2)
  with m n show ?thesis
    by (intro conjI)
qed

text \<open>
  C5 as stated fails: \<open>sample_file\<close> can be read and holds an entry above the threshold,
  but with the unreadable \<open>missing_file\<close> among the inputs the run ends with the error
  instead of reporting that entry.
\<close>

theorem readable_file_lost_with_unreadable:
  "sample_fs missing_file = None
   \<and> check_high_await_times sample_fs float_literal sample_file (Fin 50) = Inr [sample_entry]
   \<and> effective_threshold sample_args = Fin 50
   \<and> main sample_fs float_literal sample_args [missing_file, sample_file] = Inl OSError"
  by code_simp

text \<open>
  C6, as amended. The rows of the table are the first \<open>n\<close> entries of the sorted list
  when the limit \<open>n\<close> is positive, the whole list when the limit is 0 or not given, and
  the list without its last \<open>-n\<close> entries when the limit \<open>n\<close> is negative.
\<close>

theorem top_entries_by_limit:
  "(0 < n \<longrightarrow> top_entries (Some n) xs = take (nat n) xs)
   \<and> top_entries (Some 0) xs = xs
   \<and> top_entries None xs = xs
   \<and> (n < 0 \<longrightarrow> top_entries (Some n) xs = take (length xs - nat (- n)) xs)
   \<and> (main fs pf a files = Inr (Report rep) \<longrightarrow>
        table_rows rep = top_entries (args_limit a) (all_results rep))"
proof (intro conjI impI)
  show "top_entries (Some n) xs = take (nat n) xs" if "0 < n"
    using that by (simp add: top_entries_def display_limit_def slice_to_def)
  show "top_entries (Some 0) xs = xs"
    by (simp add: top_entries_def display_limit_def slice_to_def)
  show "top_entries None xs = xs"
    by (simp add: top_entries_def display_limit_def slice_to_def)
  show "top_entries (Some n) xs = take (length xs - nat (- n)) xs" if "n < 0"
  proof -
    have "nat (int (length xs) + n) = length xs - nat (- n)"
      using that by linarith
    with that show ?thesis
      by (simp add: top_entries_def display_limit_def slice_to_def)
  qed
  show "table_rows rep = top_entries (args_limit a) (all_results rep)"
    if "main fs pf a files = Inr (Report rep)"
    using that by (auto simp: main_def Let_def split: if_splits sum.splits)
qed

theorem top_entries_by_limit_witness:
  "(0::int) < 2
   \<and> top_entries (Some 2) (all_results sample_report) = [busy_b, sample_entry]
   \<and> (-1::int) < 0
   \<and> top_entries (Some (-1)) (all_results sample_report) = [busy_b, sample_entry, busy_a]
   \<and> main sample_fs float_literal sample_args [sample_file, busy_file]
       = Inr (Report sample_report)
   \<and> table_rows sample_report = top_entries (args_limit sample_args) (all_results sample_report)"
proof -
  note inst = top_entries_by_limit
    [where fs = sample_fs and pf = float_literal and a = sample_args
       and files = "[sample_file, busy_file]" and rep = sample_report
       and xs = "all_results sample_report"]
  have run: "main sample_fs float_literal sample_args [sample_file, busy_file]
             = Inr (Report sample_report)"
    by code_simp
  have first: "take (nat 2) (all_results sample_report) = [busy_b, sample_entry]"
    by code_simp
  have butlast: "take (length (all_results sample_report) - nat (- (-1)))
                   (all_results sample_report) = [busy_b, sample_entry, busy_a]"
    by code_simp
  have pos: "top_entries (Some 2) (all_results sample_report) = [busy_b, sample_entry]"
    using inst [where n = 2] first by simp
  have neg: "top_entries (Some (-1)) (all_results sample_report)
             = [busy_b, sample_entry, busy_a]"
    using inst [where n = "-1"] butlast by simp
  have rows: "table_rows sample_report
              = top_entries (args_limit sample_args) (all_results sample_report)"
    using inst [where n = 2] run by blast
  from pos neg run rows show ?thesis
    by simp
qed

text \<open>
  C6 as stated fails for a negative limit: with the limit -1 the table of the sorted list
  of four entries has its first three entries, not all four.
\<close>

theorem negative_limit_drops_tail:
  "main sample_fs float_literal sample_args [sample_file, busy_file]
     = Inr (Report sample_report)
   \<and> all_results sample_report = [busy_b, sample_entry, busy_a, busy_c]
   \<and> top_entries (Some (-1)) [busy_b, sample_entry, busy_a, busy_c]
       = [busy_b, sample_entry, busy_a]
   \<and> [busy_b, sample_entry, busy_a] \<noteq> [busy_b, sample_entry, busy_a, busy_c]"
  by code_simp



text \<open>
  C3, as amended. When no entry has a NaN peak, the list that \<open>main\<close> sorts is in descending
  order of the peak, and for every peak value the entries with that peak stand in the same
  order as in the concatenation of the lists returned for the files, taken in sorted order
  of their names.
\<close>

theorem global_sort_descending_stable:
  assumes "main fs pf a files = Inr (Report rep)"
    and "\<forall>e \<in> set (all_results rep). peak e \<noteq> NaN"
  shows "\<exists>outs. map (\<lambda>f. check_high_await_times fs pf f (effective_threshold a)) (sort files)
                  = map Inr outs
           \<and> set (all_results rep) = set (concat outs)
           \<and> sorted_wrt (\<lambda>x y. fge (peak x) (peak y)) (all_results rep)
           \<and> (\<forall>k. filter (\<lambda>e. peak e = k) (all_results rep)
                    = filter (\<lambda>e. peak e = k) (concat outs))"
proof -
  from assms(1) obtain found where
    found: "collect fs pf (effective_threshold a) [] (sort files) = Inr found"
    and res: "all_results rep = list_sort peak True found"
    by (auto simp: main_def Let_def split: if_splits sum.splits)
  from collect_outputs [OF found] obtain outs where
    outs: "map (\<lambda>f. check_high_await_times fs pf f (effective_threshold a)) (sort files)
           = map Inr outs"
    and cat: "found = concat outs"
    by auto
  from assms(2) res have "\<forall>e \<in> set found. peak e \<noteq> NaN"
    by (simp add: set_list_sort)
  from descending_list_sort [OF this] res
  have "sorted_wrt (\<lambda>x y. fge (peak x) (peak y)) (all_results rep)"
    by simp
  with outs cat res show ?thesis
    by (intro exI [of _ outs]) (simp add: set_list_sort filter_list_sort)
qed

theorem global_sort_descending_stable_witness:
  "main sample_fs float_literal sample_args [sample_file, busy_file]
     = Inr (Report sample_report)
   \<and> all_results sample_report = [busy_b, sample_entry, busy_a, busy_c]
   \<and> peak busy_b \<noteq> NaN \<and> peak sample_entry \<noteq> NaN
   \<and> peak busy_a \<noteq> NaN \<and> peak busy_c \<noteq> NaN
   \<and> map (\<lambda>f. check_high_await_times sample_fs float_literal f
                (effective_threshold sample_args)) (sort [sample_file, busy_file])
       = map Inr [[sample_entry], [busy_a, busy_b, busy_c]]
   \<and> sorted_wrt (\<lambda>x y. fge (peak x) (peak y)) (all_results sample_report)
   \<and> filter (\<lambda>e. peak e = Fin 150.5) (all_results sample_report) = [sample_entry, busy_a]"
proof -
  have run: "main sample_fs float_literal sample_args [sample_file, busy_file]
             = Inr (Report sample_report)"
    by code_simp
  have res: "all_results sample_report = [busy_b, sample_entry, busy_a, busy_c]"
    by code_simp
  have pk: "peak busy_b \<noteq> NaN" "peak sample_entry \<noteq> NaN"
    "peak busy_a \<noteq> NaN" "peak busy_c \<noteq> NaN"
    by code_simp+
  have nn: "\<forall>e \<in> set (all_results sample_report). peak e \<noteq> NaN"
    using pk by (simp add: res)
  have per_file: "map (\<lambda>f. check_high_await_times sample_fs float_literal f
                          (effective_threshold sample_args)) (sort [sample_file, busy_file])
                  = map Inr [[sample_entry], [busy_a, busy_b, busy_c]]"
    by code_simp
  have ties: "filter (\<lambda>e. peak e = Fin 150.5)
                (concat [[sample_entry], [busy_a, busy_b, busy_c]]) = [sample_entry, busy_a]"
    by code_simp
  from global_sort_descending_stable [OF run nn] obtain outs where
    outs: "map (\<lambda>f. check_high_await_times sample_fs float_literal f
                    (effective_threshold sample_args)) (sort [sample_file, busy_file])
           = map Inr outs"
    and desc: "sorted_wrt (\<lambda>x y. fge (peak x) (peak y)) (all_results sample_report)"
    and stable: "\<forall>k. filter (\<lambda>e. peak e = k) (all_results sample_report)
                     = filter (\<lambda>e. peak e = k) (concat outs)"
    by blast
  have "(map Inr outs :: (error + entry list) list)
        = map Inr [[sample_entry], [busy_a, busy_b, busy_c]]"
    by (rule trans [OF outs [symmetric] per_file])
  then have "outs = [[sample_entry], [busy_a, busy_b, busy_c]]"
    by (rule map_injective) simp
  with stable ties
  have "filter (\<lambda>e. peak e = Fin 150.5) (all_results sample_report) = [sample_entry, busy_a]"
    by simp
  with run res pk per_file desc show ?thesis
    by (intro conjI)
qed

text \<open>
  C3 as stated fails: the entry with the NaN peak and the entry with the peak 150 are not
  in descending order of the peak in either order, since \<open>nan >= 150\<close> and \<open>150 >= nan\<close>
  are both false; the sorted list of the run on \<open>nan_file\<close> has them in the first order.
\<close>

theorem nan_peak_not_descending:
  "results_of (main sample_fs float_literal sample_args [nan_file]) = [nan_entry, sdb_entry]
   \<and> \<not> fge (py_max (r_await nan_entry) (w_await nan_entry))
           (py_max (r_await sdb_entry) (w_await sdb_entry))
   \<and> \<not> fge (py_max (r_await sdb_entry) (w_await sdb_entry))
           (py_max (r_await nan_entry) (w_await nan_entry))"
  by code_simp

text \<open>
  C4, as amended. Each of the seven lists of the severity breakdown holds the entries of
  the sorted list whose peak is in its half-open range: Catastrophic from 5000, Critical
  from 1000 to below 5000, Extreme from 500 to below 1000, Very High from 250 to below
  500, Severe from 200 to below 250, Medium High from 100 to below 200 and Slow from the
  threshold to below 100. The lists do not overlap: no entry is in more than one. An
  entry of the sorted list is in exactly one of them when its peak is not NaN and in none
  when it is, so the counts add up to the number of entries whose peak is not NaN, which
  is the number of all entries when no peak is NaN. The Slow line is printed exactly when
  its list is not empty, and then the effective threshold is below 100.
\<close>

theorem severity_buckets_partition:
  assumes "main fs pf a files = Inr (Report rep)"
  shows "catastrophic (severity rep)
           = filter (\<lambda>e. fle (Fin 5000) (peak e)) (all_results rep)
         \<and> critical (severity rep)
             = filter (\<lambda>e. fle (Fin 1000) (peak e) \<and> flt (peak e) (Fin 5000)) (all_results rep)
         \<and> extreme (severity rep)
             = filter (\<lambda>e. fle (Fin 500) (peak e) \<and> flt (peak e) (Fin 1000)) (all_results rep)
         \<and> very_high (severity rep)
             = filter (\<lambda>e. fle (Fin 250) (peak e) \<and> flt (peak e) (Fin 500)) (all_results rep)
         \<and> severe (severity rep)
             = filter (\<lambda>e. fle (Fin 200) (peak e) \<and> flt (peak e) (Fin 250)) (all_results rep)
         \<and> medium_high (severity rep)
             = filter (\<lambda>e. fle (Fin 100) (peak e) \<and> flt (peak e) (Fin 200)) (all_results rep)
         \<and> normal (severity rep)
             = filter (\<lambda>e. fle (effective_threshold a) (peak e) \<and> flt (peak e) (Fin 100))
                 (all_results rep)
         \<and> (\<forall>e. buckets_holding (severity rep) e \<le> 1)
         \<and> (\<forall>e \<in> set (all_results rep).
               buckets_holding (severity rep) e = (if peak e = NaN then 0 else 1))
         \<and> bucket_total (severity rep)
             = length (filter (\<lambda>e. peak e \<noteq> NaN) (all_results rep))
         \<and> ((\<forall>e \<in> set (all_results rep). peak e \<noteq> NaN) \<longrightarrow>
               bucket_total (severity rep) = length (all_results rep))
         \<and> slow_shown (severity rep) = (normal (severity rep) \<noteq> [])
         \<and> (slow_shown (severity rep) \<longrightarrow> flt (effective_threshold a) (Fin 100))"
proof -
  define t where "t = effective_threshold a"
  from assms obtain found where
    found: "collect fs pf t [] (sort files) = Inr found"
    and res: "all_results rep = list_sort peak True found"
    and sev: "severity rep = severity_breakdown t (all_results rep)"
    by (auto simp: main_def Let_def t_def split: if_splits sum.splits)
  have ranges:
    "catastrophic (severity rep) = filter (\<lambda>e. fle (Fin 5000) (peak e)) (all_results rep)"
    "critical (severity rep)
       = filter (\<lambda>e. fle (Fin 1000) (peak e) \<and> flt (peak e) (Fin 5000)) (all_results rep)"
    "extreme (severity rep)
       = filter (\<lambda>e. fle (Fin 500) (peak e) \<and> flt (peak e) (Fin 1000)) (all_results rep)"
    "very_high (severity rep)
       = filter (\<lambda>e. fle (Fin 250) (peak e) \<and> flt (peak e) (Fin 500)) (all_results rep)"
    "severe (severity rep)
       = filter (\<lambda>e. fle (Fin 200) (peak e) \<and> flt (peak e) (Fin 250)) (all_results rep)"
    "medium_high (severity rep)
       = filter (\<lambda>e. fle (Fin 100) (peak e) \<and> flt (peak e) (Fin 200)) (all_results rep)"
    "normal (severity rep)
       = filter (\<lambda>e. fle (effective_threshold a) (peak e) \<and> flt (peak e) (Fin 100))
           (all_results rep)"
    by (simp_all add: sev severity_breakdown_def between_def fge_def t_def)
  have above: "fle t (peak e)" if "e \<in> set (all_results rep)" "peak e \<noteq> NaN" for e
  proof -
    from that(1) res have "e \<in> set found" by (simp add: set_list_sort)
    from collect_entry_above [OF found this] that(2) show ?thesis
      unfolding peak_def by (rule peak_above)
  qed
  have one: "\<forall>e. buckets_holding (severity rep) e \<le> 1"
  proof
    fix e
    show "buckets_holding (severity rep) e \<le> 1"
      unfolding sev buckets_holding_eq using tiers_claiming_le [of t "peak e"]
      by (cases "e \<in> set (all_results rep)") simp_all
  qed
  have each: "\<forall>e \<in> set (all_results rep).
                buckets_holding (severity rep) e = (if peak e = NaN then 0 else 1)"
    using above by (simp add: sev buckets_holding_eq tiers_claiming_NaN tiers_claiming_one)
  have total: "bucket_total (severity rep)
               = length (filter (\<lambda>e. peak e \<noteq> NaN) (all_results rep))"
    unfolding sev bucket_total_eq using above by (intro sum_tiers) blast
  have all: "(\<forall>e \<in> set (all_results rep). peak e \<noteq> NaN) \<longrightarrow>
               bucket_total (severity rep) = length (all_results rep)"
    using total by simp
  have shown: "slow_shown (severity rep) = (normal (severity rep) \<noteq> [])"
    by (simp add: slow_shown_def)
  have below: "slow_shown (severity rep) \<longrightarrow> flt (effective_threshold a) (Fin 100)"
  proof
    assume "slow_shown (severity rep)"
    then obtain e es where "normal (severity rep) = e # es"
      by (auto simp: slow_shown_def neq_Nil_conv)
    then have "e \<in> set (normal (severity rep))"
      by simp
    then have "fle t (peak e)" and "flt (peak e) (Fin 100)"
      by (simp_all add: sev severity_breakdown_def between_def)
    then show "flt (effective_threshold a) (Fin 100)"
      unfolding t_def by (rule fle_flt_trans)
  qed
  from ranges one each total all shown below show ?thesis
    by (intro conjI)
qed

theorem severity_buckets_partition_witness:
  "main sample_fs float_literal sample_args [sample_file, busy_file]
     = Inr (Report sample_report)
   \<and> all_results sample_report = [busy_b, sample_entry, busy_a, busy_c]
   \<and> peak busy_b = Fin 6000 \<and> peak sample_entry = Fin 150.5
   \<and> peak busy_a = Fin 150.5 \<and> peak busy_c = Fin 70
   \<and> catastrophic (severity sample_report) = [busy_b]
   \<and> critical (severity sample_report) = []
   \<and> medium_high (severity sample_report) = [sample_entry, busy_a]
   \<and> normal (severity sample_report) = [busy_c]
   \<and> buckets_holding (severity sample_report) busy_c = 1
   \<and> length (all_results sample_report) = 4
   \<and> bucket_total (severity sample_report) = 4
   \<and> slow_shown (severity sample_report)
   \<and> flt (effective_threshold sample_args) (Fin 100)"
proof -
  have run: "main sample_fs float_literal sample_args [sample_file, busy_file]
             = Inr (Report sample_report)"
    by code_simp
  have res: "all_results sample_report = [busy_b, sample_entry, busy_a, busy_c]"
    by code_simp
  have pk: "peak busy_b = Fin 6000" "peak sample_entry = Fin 150.5"
    "peak busy_a = Fin 150.5" "peak busy_c = Fin 70"
    by code_simp+
  have nn: "\<forall>e \<in> set (all_results sample_report). peak e \<noteq> NaN"
    using pk by (simp add: res)
  have mem: "busy_c \<in> set (all_results sample_report)"
    by (simp add: res)
  have len: "length (all_results sample_report) = 4"
    by (simp add: res)
  have slow: "slow_shown (severity sample_report)"
    by code_simp
  have f1: "filter (\<lambda>e. fle (Fin 5000) (peak e)) (all_results sample_report) = [busy_b]"
    by code_simp
  have f2: "filter (\<lambda>e. fle (Fin 1000) (peak e) \<and> flt (peak e) (Fin 5000))
              (all_results sample_report) = []"
    by code_simp
  have f3: "filter (\<lambda>e. fle (Fin 100) (peak e) \<and> flt (peak e) (Fin 200))
              (all_results sample_report) = [sample_entry, busy_a]"
    by code_simp
  have f4: "filter (\<lambda>e. fle (effective_threshold sample_args) (peak e)
                          \<and> flt (peak e) (Fin 100))
              (all_results sample_report) = [busy_c]"
    by code_simp
  note inst = severity_buckets_partition [OF run]
  have cat: "catastrophic (severity sample_report) = [busy_b]"
    using inst f1 by simp
  have crit: "critical (severity sample_report) = []"
    using inst f2 by simp
  have med: "medium_high (severity sample_report) = [sample_entry, busy_a]"
    using inst f3 by simp
  have norm: "normal (severity sample_report) = [busy_c]"
    using inst f4 by simp
  have cnt: "\<forall>e \<in> set (all_results sample_report).
               buckets_holding (severity sample_report) e = (if peak e = NaN then 0 else 1)"
    using inst by (elim conjE)
  with mem pk(4) have hold: "buckets_holding (severity sample_report) busy_c = 1"
    by simp
  have "(\<forall>e \<in> set (all_results sample_report). peak e \<noteq> NaN) \<longrightarrow>
          bucket_total (severity sample_report) = length (all_results sample_report)"
    using inst by (elim conjE)
  with nn len have total: "bucket_total (severity sample_report) = 4"
    by simp
  have "slow_shown (severity sample_report) \<longrightarrow>
          flt (effective_threshold sample_args) (Fin 100)"
    using inst by (elim conjE)
  with slow have below: "flt (effective_threshold sample_args) (Fin 100)"
    by simp
  from run res pk cat crit med norm hold len total slow below show ?thesis
    by (intro conjI)
qed

text \<open>
  C4 as stated fails: the run on \<open>nan_file\<close> has two entries, and the entry with the NaN
  peak is in none of the seven lists, whose counts add up to 1.
\<close>

theorem nan_peak_in_no_bucket:
  "results_of (main sample_fs float_literal sample_args [nan_file]) = [nan_entry, sdb_entry]
   \<and> map_option bucket_total (breakdown_of (main sample_fs float_literal sample_args [nan_file]))
       = Some 1
   \<and> length [nan_entry, sdb_entry] = 2"
  by code_simp

end
